theory Spec2Isabelle
  imports Complex_Main "HOL-Library.Word" "HOL-Library.Sublist"
begin

section \<open>Decimal arithmetic of the default context\<close>

text \<open>
  The sources compute with Python's \<^verbatim>\<open>decimal.Decimal\<close> under the default context:
  28 significant digits, rounding half-even. A finite Decimal is identified with its numeric
  value, a rational; comparison in Python is by value as well. Every arithmetic operator
  computes the exact result and rounds it to 28 significant digits. The constructor
  \<^verbatim>\<open>Decimal(x)\<close> is exact, also on a binary float, so \<^verbatim>\<open>Decimal(0.001)\<close> is the value of
  the double nearest to one thousandth. NaN, infinities and the exponent limits of the
  context are outside the model.
\<close>

type_synonym decimal = rat

function ndigits :: "nat \<Rightarrow> nat" where
  "ndigits n = (if n < 10 then 1 else Suc (ndigits (n div 10)))"
  by pat_completeness auto
termination
  by (relation "measure id") auto

declare ndigits.simps [simp del]

definition pow10 :: "int \<Rightarrow> rat" where
  "pow10 e = (if 0 \<le> e then 10 ^ nat e else 1 / 10 ^ nat (- e))"

definition round_half_even :: "rat \<Rightarrow> int" where
  "round_half_even q =
     (let f = \<lfloor>q\<rfloor>; d = q - of_int f
      in if d < 1 / 2 then f else if 1 / 2 < d then f + 1 else if even f then f else f + 1)"

text \<open>The exponent of the leading digit of a positive value: \<open>10 ^ e \<le> q < 10 ^ (e + 1)\<close>.\<close>

definition adjusted :: "rat \<Rightarrow> int" where
  "adjusted q =
     (if 1 \<le> q then int (ndigits (nat \<lfloor>q\<rfloor>)) - 1
      else let k = int (ndigits (nat \<lfloor>1 / q\<rfloor>))
           in if q = pow10 (1 - k) then 1 - k else - k)"

definition round_prec :: "rat \<Rightarrow> decimal" where
  "round_prec q =
     (if q = 0 then 0
      else let sh = 27 - adjusted \<bar>q\<bar>
           in sgn q * of_int (round_half_even (\<bar>q\<bar> * pow10 sh)) * pow10 (- sh))"

definition dec_mul :: "decimal \<Rightarrow> decimal \<Rightarrow> decimal" where
  "dec_mul a b = round_prec (a * b)"

definition dec_add :: "decimal \<Rightarrow> decimal \<Rightarrow> decimal" where
  "dec_add a b = round_prec (a + b)"

definition dec_sub :: "decimal \<Rightarrow> decimal \<Rightarrow> decimal" where
  "dec_sub a b = round_prec (a - b)"

text \<open>Division; the sources divide by the constant 100 only, never by zero.\<close>

definition dec_div :: "decimal \<Rightarrow> decimal \<Rightarrow> decimal" where
  "dec_div a b = round_prec (a / b)"

text \<open>Unary minus and \<^verbatim>\<open>abs\<close> round their operand to the context precision too.\<close>

definition dec_neg :: "decimal \<Rightarrow> decimal" where
  "dec_neg a = round_prec (- a)"

definition dec_abs :: "decimal \<Rightarrow> decimal" where
  "dec_abs a = round_prec \<bar>a\<bar>"

text \<open>
  \<^verbatim>\<open>a % b\<close> on Decimals takes the sign of the dividend (the quotient is truncated towards
  zero) and raises InvalidOperation when the integer quotient needs more than 28 digits;
  \<^verbatim>\<open>round(a, 1)\<close> is \<^verbatim>\<open>quantize\<close> to one fractional digit, half-even, and raises
  InvalidOperation when the result needs more than 28 digits. \<open>None\<close> is the raise.
\<close>

definition trunc :: "rat \<Rightarrow> int" where
  "trunc q = (if 0 \<le> q then \<lfloor>q\<rfloor> else - \<lfloor>- q\<rfloor>)"

definition dec_mod :: "decimal \<Rightarrow> decimal \<Rightarrow> decimal option" where
  "dec_mod a b =
     (let n = trunc (a / b)
      in if 10 ^ 28 \<le> \<bar>n\<bar> then None else Some (round_prec (a - b * of_int n)))"

definition dec_round1 :: "decimal \<Rightarrow> decimal option" where
  "dec_round1 a =
     (let c = round_half_even (a * 10)
      in if 10 ^ 28 \<le> \<bar>c\<bar> then None else Some (of_int c / 10))"

text \<open>The float literals of the sources, converted exactly by \<^verbatim>\<open>Decimal(...)\<close>.\<close>

definition Decimal_0_001 :: decimal where
  "Decimal_0_001 = 1152921504606847 / 1152921504606846976"

definition Decimal_0_90 :: decimal where
  "Decimal_0_90 = 8106479329266893 / 9007199254740992"

section \<open>Strings\<close>

text \<open>
  \<^verbatim>\<open>s.startswith(p)\<close>, \<^verbatim>\<open>s.endswith(p)\<close> and the substring test \<^verbatim>\<open>sub in s\<close> of Python,
  on strings as lists of characters. The empty string is a substring of every string.
\<close>

definition startswith :: "'a list \<Rightarrow> 'a list \<Rightarrow> bool" where
  "startswith s p = (take (length p) s = p)"

definition endswith :: "'a list \<Rightarrow> 'a list \<Rightarrow> bool" where
  "endswith s p = (length p \<le> length s \<and> drop (length s - length p) s = p)"

fun str_contains :: "'a list \<Rightarrow> 'a list \<Rightarrow> bool" where
  "str_contains [] sub = (sub = [])"
| "str_contains (c # cs) sub = (take (length sub) (c # cs) = sub \<or> str_contains cs sub)"

section \<open>The tokenizer (ptext/io/read/tokenize/low\_level\_tokenizer.py)\<close>

datatype TokenType =
  NUMBER | STRING | HEX_STRING | NAME | COMMENT | START_ARRAY | END_ARRAY | START_DICT |
  END_DICT | REF | OBJ | END_OBJ | OTHER | END_OF_FILE

record Token =
  byte_offset :: int
  token_type :: TokenType
  token_text :: string

text \<open>
  The two exceptions \<^verbatim>\<open>next_token\<close> raises: \<^verbatim>\<open>PDFSyntaxError(message, byte_offset)\<close> and
  \<^verbatim>\<open>PDFEOFError()\<close>, which carries no byte offset.
\<close>

datatype PDFException = PDFSyntaxError string int | PDFEOFError

text \<open>
  The byte source: a buffer of bytes and a cursor. \<^verbatim>\<open>read(1)\<close> returns one byte and
  advances the cursor, or returns no byte at the end; \<^verbatim>\<open>decode("latin-1")\<close> maps a byte to
  the character of the same code; \<^verbatim>\<open>seek(-1, SEEK_CUR)\<close> moves the cursor back by one.
\<close>

record io_source =
  data :: "8 word list"
  pos :: nat

definition decode_latin1 :: "8 word \<Rightarrow> char" where
  "decode_latin1 b = char_of (unat b)"

definition next_char :: "io_source \<Rightarrow> string \<times> io_source" where
  "next_char s =
     (if pos s < length (data s) then ([decode_latin1 (data s ! pos s)], s\<lparr>pos := pos s + 1\<rparr>)
      else ([], s))"

definition prev_char :: "io_source \<Rightarrow> io_source" where
  "prev_char s = s\<lparr>pos := pos s - 1\<rparr>"

definition tell :: "io_source \<Rightarrow> int" where
  "tell s = int (pos s)"

text \<open>
  \<^verbatim>\<open>ord\<close> is applied to one-character strings only: every call of \<^verbatim>\<open>_is_whitespace\<close> and
  \<^verbatim>\<open>_is_delimiter\<close> is guarded by \<^verbatim>\<open>len(ch) > 0\<close>.
\<close>

definition ord :: "string \<Rightarrow> int" where
  "ord ch = of_char (hd ch)"

definition is_delimiter :: "string \<Rightarrow> bool" where
  "is_delimiter ch = (ord ch \<in> set [- 1, 0, 9, 10, 12, 13, 32, 37, 40, 41, 47, 60, 62, 91, 93])"

definition is_whitespace :: "string \<Rightarrow> bool" where
  "is_whitespace ch = (ord ch \<in> set [0, 9, 10, 12, 13, 32])"

text \<open>
  The loops of \<^verbatim>\<open>next_token\<close>, one function each, returning the variables they leave
  behind (\<^verbatim>\<open>ch\<close>, the byte source, \<^verbatim>\<open>out_str\<close>). They terminate because every read
  of a character advances the cursor; \<open>remaining\<close> is the measure for the loops that test
  \<^verbatim>\<open>ch\<close> before they read.
\<close>

definition remaining :: "string \<times> io_source \<Rightarrow> nat" where
  "remaining p = length (data (snd p)) - pos (snd p) + (if fst p = [] then 0 else 1)"

function skip_whitespace :: "string \<Rightarrow> io_source \<Rightarrow> string \<times> io_source" where
  "skip_whitespace ch s =
     (if length ch > 0 \<and> is_whitespace ch
      then (let (ch1, s1) = next_char s in skip_whitespace ch1 s1)
      else (ch, s))"
  by pat_completeness auto
termination
  by (relation "measure (\<lambda>(ch, s). remaining (ch, s))")
     (auto simp: remaining_def next_char_def split: if_splits)

declare skip_whitespace.simps [simp del]

function name_loop :: "io_source \<Rightarrow> string \<Rightarrow> string \<times> io_source \<times> string" where
  "name_loop s out_str =
     (let (ch, s1) = next_char s
      in if length ch = 0 then (ch, s1, out_str)
         else if is_delimiter ch then (ch, s1, out_str)
         else name_loop s1 (out_str @ ch))"
  by pat_completeness auto
termination
  by (relation "measure (\<lambda>(s, out_str). length (data s) - pos s)")
     (auto simp: next_char_def split: if_splits)

declare name_loop.simps [simp del]

function comment_loop :: "string \<Rightarrow> io_source \<Rightarrow> string \<Rightarrow> string \<times> io_source \<times> string" where
  "comment_loop ch s out_str =
     (if length ch \<noteq> 0 \<and> ch \<noteq> [CHR 0x0D] \<and> ch \<noteq> [CHR 0x0A]
      then (let (ch1, s1) = next_char s in comment_loop ch1 s1 (out_str @ ch))
      else (ch, s, out_str))"
  by pat_completeness auto
termination
  by (relation "measure (\<lambda>(ch, s, out_str). remaining (ch, s))")
     (auto simp: remaining_def next_char_def split: if_splits)

declare comment_loop.simps [simp del]

function hex_string_loop :: "io_source \<Rightarrow> string \<Rightarrow> string \<times> io_source \<times> string" where
  "hex_string_loop s out_str =
     (let (ch, s1) = next_char s
      in if length ch = 0 then (ch, s1, out_str)
         else if ch = ''>'' then (ch, s1, out_str @ ch)
         else hex_string_loop s1 (out_str @ ch))"
  by pat_completeness auto
termination
  by (relation "measure (\<lambda>(s, out_str). length (data s) - pos s)")
     (auto simp: next_char_def split: if_splits)

declare hex_string_loop.simps [simp del]

function number_loop :: "string \<Rightarrow> io_source \<Rightarrow> string \<Rightarrow> string \<times> io_source \<times> string" where
  "number_loop ch s out_str =
     (if length ch \<noteq> 0 \<and> str_contains ''-+.0123456789'' ch
      then (let (ch1, s1) = next_char s in number_loop ch1 s1 (out_str @ ch))
      else (ch, s, out_str))"
  by pat_completeness auto
termination
  by (relation "measure (\<lambda>(ch, s, out_str). remaining (ch, s))")
     (auto simp: remaining_def next_char_def split: if_splits)

declare number_loop.simps [simp del]

function string_loop :: "io_source \<Rightarrow> string \<Rightarrow> int \<Rightarrow> string \<times> io_source \<times> string" where
  "string_loop s out_str bracket_nesting_level =
     (let (ch, s1) = next_char s
      in if length ch = 0 then (ch, s1, out_str)
         else if ch = [CHR 0x5C] then
           (let (ch2, s2) = next_char s1
            in string_loop s2 (out_str @ [CHR 0x5C] @ ch2) bracket_nesting_level)
         else
           (let level1 = (if ch = ''('' then bracket_nesting_level + 1 else bracket_nesting_level);
                level2 = (if ch = '')'' then level1 - 1 else level1);
                out_str1 = out_str @ ch
            in if level2 = 0 then (ch, s1, out_str1)
               else string_loop s1 out_str1 level2))"
  by pat_completeness auto
termination
  by (relation "measure (\<lambda>(s, out_str, level). length (data s) - pos s)")
     (auto simp: next_char_def split: if_splits)

declare string_loop.simps [simp del]

function other_loop :: "string \<Rightarrow> io_source \<Rightarrow> string \<Rightarrow> string \<times> io_source \<times> string" where
  "other_loop ch s out_str =
     (if length ch \<noteq> 0 \<and> \<not> is_delimiter ch
      then (let (ch1, s1) = next_char s in other_loop ch1 s1 (out_str @ ch))
      else (ch, s, out_str))"
  by pat_completeness auto
termination
  by (relation "measure (\<lambda>(ch, s, out_str). remaining (ch, s))")
     (auto simp: remaining_def next_char_def split: if_splits)

declare other_loop.simps [simp del]

text \<open>\<^verbatim>\<open>if len(ch) != 0: self._prev_char()\<close>\<close>

definition unread :: "string \<Rightarrow> io_source \<Rightarrow> io_source" where
  "unread ch s = (if length ch \<noteq> 0 then prev_char s else s)"

text \<open>\<^verbatim>\<open>return Token(out_pos, token_type, out_str)\<close>\<close>

definition token :: "int \<Rightarrow> TokenType \<Rightarrow> string \<Rightarrow> PDFException + Token option" where
  "token out_pos ty out_str =
     Inr (Some \<lparr>byte_offset = out_pos, token_type = ty, token_text = out_str\<rparr>)"

text \<open>
  \<^verbatim>\<open>next_token\<close>: the result is the exception raised (\<open>Inl\<close>), or the token or \<^verbatim>\<open>None\<close>
  returned (\<open>Inr\<close>), together with the byte source as the call leaves it.
\<close>

definition next_token :: "io_source \<Rightarrow> (PDFException + Token option) \<times> io_source" where
  "next_token s0 =
     (let (ch, s) = next_char s0
      in if length ch = 0 then (Inr None, s)
         else
           (let (ch, s) = skip_whitespace ch s
            in if ch = ''['' then (token (tell s - 1) START_ARRAY ''['', s)
               else if ch = '']'' then (token (tell s - 1) END_ARRAY '']'', s)
               else if ch = ''/'' then
                 (let out_pos = tell s - 1;
                      (ch, s, out_str) = name_loop s ''/''
                  in (token out_pos NAME out_str, unread ch s))
               else if ch = ''>'' then
                 (let out_pos = tell s - 1;
                      (ch, s) = next_char s
                  in if ch \<noteq> ''>''
                     then (Inl (PDFSyntaxError (''invalid character, expected >, received '' @ ch)
                                  (tell s)), s)
                     else (token out_pos END_DICT ''>>'', s))
               else if ch = ''%'' then
                 (let out_pos = tell s - 1;
                      (ch, s, out_str) = comment_loop ch s []
                  in (token out_pos COMMENT out_str, unread ch s))
               else if ch = ''<'' then
                 (let out_pos = tell s - 1;
                      (ch, s) = next_char s
                  in if ch = ''<'' then (token out_pos START_DICT ''<<'', s)
                     else if ch = ''>'' then (token out_pos HEX_STRING ''<>'', s)
                     else (let (ch, s, out_str) = hex_string_loop s (''<'' @ ch)
                           in (token out_pos HEX_STRING out_str, s)))
               else if str_contains ''-+.0123456789'' ch then
                 (let out_pos = tell s - 1;
                      (ch, s, out_str) = number_loop ch s []
                  in (token out_pos NUMBER out_str, unread ch s))
               else if ch = ''('' then
                 (let out_pos = tell s - 1;
                      (ch, s, out_str) = string_loop s ''('' 1
                  in if length ch = 0 then (Inl PDFEOFError, s)
                     else if endswith out_str [CHR 0x5C]
                     then (Inl (PDFSyntaxError ''unterminated escape sequence'' (tell s)), s)
                     else (token out_pos STRING out_str, s))
               else
                 (let out_pos = tell s - 1;
                      (ch, s, out_str) = other_loop ch s []
                  in (token out_pos OTHER out_str, unread ch s))))"

section \<open>Glyphs and glyph lines (borb/pdf/canvas/font/glyph\_line.py)\<close>

text \<open>A Python \<^verbatim>\<open>str\<close> of unicode text is the list of its code points.\<close>

type_synonym ustring = "nat list"

record Glyph =
  character_code :: nat
  unicode_str :: ustring
  width :: decimal

text \<open>The Font capability, as far as the glyph line consults it.\<close>

record Font =
  character_identifier_to_unicode :: "nat \<Rightarrow> ustring option"
  get_width :: "nat \<Rightarrow> decimal option"

record GlyphLine =
  glyphs :: "Glyph list"
  font :: Font
  font_size :: decimal
  character_spacing :: decimal
  word_spacing :: decimal
  horizontal_scaling :: decimal

text \<open>\<^verbatim>\<open>font.get_width(code) or Decimal(0)\<close>: a missing or zero width gives zero.\<close>

definition width_or_zero :: "decimal option \<Rightarrow> decimal" where
  "width_or_zero w = (case w of None \<Rightarrow> 0 | Some v \<Rightarrow> if v = 0 then 0 else v)"

text \<open>The \<^verbatim>\<open>while i < len(text_bytes)\<close> loop of the constructor.\<close>

function GlyphLine_init_loop :: "Font \<Rightarrow> 8 word list \<Rightarrow> nat \<Rightarrow> Glyph list \<Rightarrow> Glyph list" where
  "GlyphLine_init_loop fnt text_bytes i gs =
     (if i < length text_bytes then
        (let two_bytes =
               (if i + 1 < length text_bytes then
                  (let multi_byte_char_code = unat (text_bytes ! i) * 256 + unat (text_bytes ! (i + 1))
                   in case character_identifier_to_unicode fnt multi_byte_char_code of
                        Some unicode_chars \<Rightarrow>
                          Some \<lparr>character_code = multi_byte_char_code, unicode_str = unicode_chars,
                                width = width_or_zero (get_width fnt multi_byte_char_code)\<rparr>
                      | None \<Rightarrow> None)
                else None)
         in case two_bytes of
              Some g \<Rightarrow> GlyphLine_init_loop fnt text_bytes (i + 2) (gs @ [g])
            | None \<Rightarrow>
                (case character_identifier_to_unicode fnt (unat (text_bytes ! i)) of
                   Some unicode_chars \<Rightarrow>
                     GlyphLine_init_loop fnt text_bytes (i + 1)
                       (gs @ [\<lparr>character_code = unat (text_bytes ! i), unicode_str = unicode_chars,
                               width = width_or_zero (get_width fnt (unat (text_bytes ! i)))\<rparr>])
                 | None \<Rightarrow>
                     GlyphLine_init_loop fnt text_bytes (i + 1)
                       (gs @ [\<lparr>character_code = unat (text_bytes ! i), unicode_str = [65533],
                               width = 250\<rparr>])))
      else gs)"
  by pat_completeness auto
termination
  by (relation "measure (\<lambda>(fnt, text_bytes, i, gs). length text_bytes - i)") auto

declare GlyphLine_init_loop.simps [simp del]

definition GlyphLine_init ::
  "8 word list \<Rightarrow> Font \<Rightarrow> decimal \<Rightarrow> decimal \<Rightarrow> decimal \<Rightarrow> decimal \<Rightarrow> GlyphLine" where
  "GlyphLine_init text_bytes fnt fs cs ws hs =
     \<lparr>glyphs = GlyphLine_init_loop fnt text_bytes 0 [], font = fnt, font_size = fs,
      character_spacing = cs, word_spacing = ws, horizontal_scaling = hs\<rparr>"

definition isspace :: "nat \<Rightarrow> bool" where
  "isspace c = (c \<in> set [9, 10, 11, 12, 13, 32])"

text \<open>The body of the loop of \<^verbatim>\<open>get_width_in_text_space\<close>, for one glyph.\<close>

definition glyph_width_in_text_space :: "GlyphLine \<Rightarrow> Glyph \<Rightarrow> decimal" where
  "glyph_width_in_text_space gl g =
     (let w0 = dec_mul (dec_mul (width g) (font_size gl)) Decimal_0_001;
          w1 = (if length (unicode_str g) = 1 \<and> isspace (hd (unicode_str g))
                then dec_add w0 (word_spacing gl) else w0);
          w2 = dec_mul w1 (dec_div (horizontal_scaling gl) 100)
      in dec_add w2 (character_spacing gl))"

fun get_width_loop :: "GlyphLine \<Rightarrow> Glyph list \<Rightarrow> decimal \<Rightarrow> decimal" where
  "get_width_loop gl [] w = w"
| "get_width_loop gl (g # gs) w = get_width_loop gl gs (dec_add w (glyph_width_in_text_space gl g))"

definition get_width_in_text_space :: "GlyphLine \<Rightarrow> decimal" where
  "get_width_in_text_space gl = dec_sub (get_width_loop gl (glyphs gl) 0) (character_spacing gl)"

definition get_text :: "GlyphLine \<Rightarrow> ustring" where
  "get_text gl = concat (map unicode_str (glyphs gl))"

text \<open>
  \<^verbatim>\<open>split\<close> builds new GlyphLine objects and assigns to an attribute of each. To see what it
  leaves alone, objects live in a store: an address is an index into the list of allocated
  GlyphLine objects, the constructor allocates at the end, and an attribute assignment
  updates the object at its address. Lists of glyphs are values; \<^verbatim>\<open>split\<close> never shares one
  between two objects.
\<close>

type_synonym addr = nat

type_synonym heap = "GlyphLine list"

definition new_GlyphLine ::
  "heap \<Rightarrow> 8 word list \<Rightarrow> Font \<Rightarrow> decimal \<Rightarrow> decimal \<Rightarrow> decimal \<Rightarrow> decimal \<Rightarrow> addr \<times> heap" where
  "new_GlyphLine h text_bytes fnt fs cs ws hs =
     (length h, h @ [GlyphLine_init text_bytes fnt fs cs ws hs])"

text \<open>
  The loop \<^verbatim>\<open>for g in self._glyphs\<close>: the attributes of \<^verbatim>\<open>self\<close> are read from the store
  at each iteration, \<^verbatim>\<open>out[-1]._glyphs = [g]\<close> writes to the object appended last.
\<close>

fun split_loop :: "addr \<Rightarrow> Glyph list \<Rightarrow> addr list \<Rightarrow> heap \<Rightarrow> addr list \<times> heap" where
  "split_loop self [] out h = (out, h)"
| "split_loop self (g # gs) out h =
     (let (a, h1) = new_GlyphLine h [] (font (h ! self)) (font_size (h ! self))
                      (character_spacing (h ! self)) (word_spacing (h ! self))
                      (horizontal_scaling (h ! self));
          out1 = out @ [a];
          h2 = h1[last out1 := (h1 ! last out1)\<lparr>glyphs := [g]\<rparr>]
      in split_loop self gs out1 h2)"

definition split :: "addr \<Rightarrow> heap \<Rightarrow> addr list \<times> heap" where
  "split self h = split_loop self (glyphs (h ! self)) [] h"

text \<open>
  A font that maps every single-byte code to the one-character string of the same code
  point, with width 500, and maps no other code.
\<close>

definition single_byte_font :: Font where
  "single_byte_font =
     \<lparr>character_identifier_to_unicode = (\<lambda>c. if c < 256 then Some [c] else None),
      get_width = (\<lambda>c. if c < 256 then Some 500 else None)\<rparr>"

section \<open>Text render events (ptext/pdf/canvas/event/text\_render\_event.py)\<close>

record LineSegment =
  x0 :: decimal
  y0 :: decimal
  x1 :: decimal
  y1 :: decimal

text \<open>The scalars of the graphics state that the modelled methods read.\<close>

record CanvasGraphicsState =
  gs_font_size :: decimal
  gs_character_spacing :: decimal
  gs_word_spacing :: decimal
  gs_horizontal_scaling :: decimal
  text_rise :: decimal

text \<open>
  The attributes of a TextRenderEvent. The classes Glyph and GlyphLine that this module
  imports (\<^verbatim>\<open>ptext.pdf.canvas.font.glyph_line\<close>) are not among the sources. The glyph line
  of this module is the list of its glyphs (\<^verbatim>\<open>GlyphLine([g])\<close>, \<^verbatim>\<open>glyph_line.glyphs\<close>,
  iteration over it), and a glyph is the record of the spec's data model: its \<^verbatim>\<open>width\<close>
  and \<^verbatim>\<open>unicode\<close> are the fields \<open>width\<close> and \<open>unicode_str\<close>. The matrix and the colour
  are of types \<open>'m\<close> and \<open>'c\<close>, left open.
\<close>

record ('m, 'c) TextRenderEvent =
  graphics_state :: CanvasGraphicsState
  raw_bytes :: string
  glyph_line :: "Glyph list"
  text_to_user_space_transform_matrix :: 'm
  font_family :: string
  font_ascent :: decimal
  ev_font_size :: decimal
  font_color :: 'c
  ev_character_spacing :: decimal
  space_character_width :: decimal
  baseline :: LineSegment

text \<open>\<^verbatim>\<open>TextRenderEvent.get_text\<close>: the text of the glyph line.\<close>

definition TextRenderEvent_get_text :: "('m, 'c) TextRenderEvent \<Rightarrow> ustring" where
  "TextRenderEvent_get_text e = concat (map unicode_str (glyph_line e))"

text \<open>The body of the loop of \<^verbatim>\<open>_get_pdf_string_width_in_text_space\<close>, for one glyph.\<close>

definition character_width :: "CanvasGraphicsState \<Rightarrow> Glyph \<Rightarrow> decimal" where
  "character_width gs g =
     (let w0 = dec_mul (dec_mul (width g) (gs_font_size gs)) Decimal_0_001;
          w1 = (if unicode_str g = [32] then dec_add w0 (gs_word_spacing gs) else w0);
          w2 = dec_mul w1 (dec_div (gs_horizontal_scaling gs) 100)
      in dec_add w2 (gs_character_spacing gs))"

fun string_width_loop :: "CanvasGraphicsState \<Rightarrow> Glyph list \<Rightarrow> decimal \<Rightarrow> decimal" where
  "string_width_loop gs [] total_width = total_width"
| "string_width_loop gs (g # rest) total_width =
     string_width_loop gs rest (dec_add total_width (character_width gs g))"

definition get_pdf_string_width_in_text_space ::
  "('m, 'c) TextRenderEvent \<Rightarrow> CanvasGraphicsState \<Rightarrow> decimal" where
  "get_pdf_string_width_in_text_space e gs =
     dec_sub (string_width_loop gs (glyph_line e) 0) (gs_character_spacing gs)"




text \<open>\<^verbatim>\<open>LeftToRightComparator.cmp\<close>; \<open>None\<close> when \<^verbatim>\<open>%\<close> raises.\<close>

definition cmp :: "('m, 'c) TextRenderEvent \<Rightarrow> ('m, 'c) TextRenderEvent \<Rightarrow> decimal option" where
  "cmp obj0 obj1 =
     (case dec_mod (y0 (baseline obj0)) 5 of
        None \<Rightarrow> None
      | Some r0 \<Rightarrow>
          (let y0_round = dec_sub (y0 (baseline obj0)) r0
           in case dec_mod (y0 (baseline obj1)) 5 of
                None \<Rightarrow> None
              | Some r1 \<Rightarrow>
                  (let y1_round = dec_sub (y0 (baseline obj1)) r1
                   in if y0_round = y1_round
                      then Some (dec_sub (x0 (baseline obj0)) (x0 (baseline obj1)))
                      else Some (dec_neg (dec_sub y0_round y1_round)))))"

section \<open>Line render events (ptext/toolkit/structure/line/line\_render\_event.py)\<close>

record ('m, 'c) LineRenderEvent =
  contained_events :: "('m, 'c) TextRenderEvent list"

datatype line_error = IndexError | InvalidOperation

text \<open>The loop of \<^verbatim>\<open>LineRenderEvent.get_text\<close>, with \<^verbatim>\<open>text\<close> and \<^verbatim>\<open>right\<close> passed on.\<close>

fun get_text_loop ::
  "('m, 'c) TextRenderEvent list \<Rightarrow> ustring \<Rightarrow> decimal \<Rightarrow> line_error + ustring" where
  "get_text_loop [] text right = Inr text"
| "get_text_loop (e # es) text right =
     (if startswith (TextRenderEvent_get_text e) [32] \<or> endswith text [32]
      then get_text_loop es (text @ TextRenderEvent_get_text e)
             (max (x0 (baseline e)) (x1 (baseline e)))
      else
        (let delta = dec_abs (dec_sub right (x0 (baseline e)))
         in case dec_round1 (space_character_width e) of
              None \<Rightarrow> Inl InvalidOperation
            | Some space_width \<Rightarrow>
                (let right1 = max (x0 (baseline e)) (x1 (baseline e));
                     text1 = text @ (if dec_mul space_width Decimal_0_90 < delta then [32] else [])
                 in get_text_loop es (text1 @ TextRenderEvent_get_text e) right1)))"

definition LineRenderEvent_get_text :: "('m, 'c) LineRenderEvent \<Rightarrow> line_error + ustring" where
  "LineRenderEvent_get_text l =
     (case contained_events l of
        [] \<Rightarrow> Inl IndexError
      | e0 # _ \<Rightarrow>
          get_text_loop (contained_events l) [] (min (x0 (baseline e0)) (x1 (baseline e0))))"

text \<open>The loop of \<^verbatim>\<open>LineRenderEvent.get_baseline\<close>, with \<^verbatim>\<open>min_x\<close> and \<^verbatim>\<open>max_x\<close> passed on.\<close>

fun get_baseline_loop ::
  "('m, 'c) TextRenderEvent list \<Rightarrow> decimal \<Rightarrow> decimal \<Rightarrow> decimal \<times> decimal" where
  "get_baseline_loop [] min_x max_x = (min_x, max_x)"
| "get_baseline_loop (e # es) min_x max_x =
     get_baseline_loop es
       (min (min min_x (x0 (baseline e))) (x1 (baseline e)))
       (max (max max_x (x0 (baseline e))) (x1 (baseline e)))"

definition get_baseline :: "('m, 'c) LineRenderEvent \<Rightarrow> line_error + LineSegment" where
  "get_baseline l =
     (case contained_events l of
        [] \<Rightarrow> Inl IndexError
      | e0 # _ \<Rightarrow>
          (let min_x = min (x0 (baseline e0)) (x1 (baseline e0));
               max_x = min (x0 (baseline e0)) (x1 (baseline e0));
               y = y0 (baseline e0);
               (min_x, max_x) = get_baseline_loop (contained_events l) min_x max_x
           in Inr \<lparr>x0 = min_x, y0 = y, x1 = max_x, y1 = y\<rparr>))"

section \<open>Sample inputs\<close>

text \<open>
  A graphics state and an event to evaluate the functions on: font size 12, no spacing,
  scaling 100, no text rise; the event has the given glyphs, baseline and space width.
\<close>

definition sample_state :: CanvasGraphicsState where
  "sample_state =
     \<lparr>gs_font_size = 12, gs_character_spacing = 0, gs_word_spacing = 0,
      gs_horizontal_scaling = 100, text_rise = 0\<rparr>"

definition sample_event :: "Glyph list \<Rightarrow> LineSegment \<Rightarrow> decimal \<Rightarrow> (unit, unit) TextRenderEvent" where
  "sample_event gl bl sw =
     \<lparr>graphics_state = sample_state, raw_bytes = [], glyph_line = gl,
      text_to_user_space_transform_matrix = (), font_family = ''Helvetica'', font_ascent = 718,
      ev_font_size = 12, font_color = (), ev_character_spacing = 0,
      space_character_width = sw, baseline = bl\<rparr>"

text \<open>A glyph line of the two bytes of \<^verbatim>\<open>Hi\<close> under the single-byte font.\<close>

definition sample_line :: GlyphLine where
  "sample_line =
     \<lparr>glyphs = [\<lparr>character_code = 72, unicode_str = [72], width = 500\<rparr>,
                \<lparr>character_code = 105, unicode_str = [105], width = 500\<rparr>],
      font = single_byte_font, font_size = 12, character_spacing = 0, word_spacing = 0,
      horizontal_scaling = 100\<rparr>"


section \<open>Evaluating decimals\<close>

lemma floor_numeral_div [simp]:
  "\<lfloor>numeral a / numeral b :: rat\<rfloor> = numeral a div numeral b"
  using floor_divide_of_int_eq [of "numeral a" "numeral b", where ?'a = rat] by simp

lemma floor_one_div_numeral [simp]:
  "\<lfloor>1 / numeral b :: rat\<rfloor> = 1 div numeral b"
  using floor_divide_of_int_eq [of 1 "numeral b", where ?'a = rat] by simp

lemmas dec_eval =
  dec_mul_def dec_add_def dec_sub_def dec_div_def dec_neg_def dec_abs_def
  round_prec_def adjusted_def round_half_even_def pow10_def ndigits.simps Let_def

section \<open>The tokenizer at the end of the input\<close>

lemmas tok_eval =
  next_token_def next_char_def prev_char_def tell_def unread_def token_def
  is_whitespace_def is_delimiter_def ord_def decode_latin1_def char_of_def bit_Suc_0_iff
  endswith_def Let_def
  skip_whitespace.simps name_loop.simps comment_loop.simps hex_string_loop.simps
  number_loop.simps string_loop.simps other_loop.simps

text \<open>
  C1. A parenthesized string cut off right after a backslash: the claim expects the syntax
  error for an unterminated escape. On the bytes of \<^verbatim>\<open>(bad\\<close> the loop appends the
  backslash and the empty read, reads once more, leaves with \<^verbatim>\<open>ch\<close> empty, and the test
  \<^verbatim>\<open>len(ch) == 0\<close> comes first: \<^verbatim>\<open>next_token\<close> raises PDFEOFError.
\<close>

theorem next_token_dangling_backslash:
  "next_token \<lparr>data = [40, 98, 97, 100, 92], pos = 0\<rparr>
     = (Inl PDFEOFError, \<lparr>data = [40, 98, 97, 100, 92], pos = 5\<rparr>)"
  by (simp add: tok_eval)

text \<open>
  C2. Only whitespace before the end of the input: the claim expects \<^verbatim>\<open>None\<close>. On a single
  space the whitespace loop leaves \<^verbatim>\<open>ch\<close> empty, the empty string is a substring of
  \<^verbatim>\<open>"-+.0123456789"\<close>, and \<^verbatim>\<open>next_token\<close> returns a NUMBER token with empty text.
\<close>

theorem next_token_trailing_whitespace:
  "next_token \<lparr>data = [32], pos = 0\<rparr>
     = (Inr (Some \<lparr>byte_offset = 0, token_type = NUMBER, token_text = []\<rparr>),
        \<lparr>data = [32], pos = 1\<rparr>)"
  by (simp add: tok_eval)

text \<open>
  The same holds for every input: when at least one byte remains and all remaining bytes are
  whitespace, \<^verbatim>\<open>next_token\<close> consumes them and returns a NUMBER token with empty text at the
  offset of the last byte.
\<close>

lemma skip_whitespace_to_end:
  assumes "\<forall>i. pos s \<le> i \<and> i < length (data s) \<longrightarrow> is_whitespace [decode_latin1 (data s ! i)]"
    and "ch \<noteq> []" and "is_whitespace ch" and "pos s \<le> length (data s)"
  shows "skip_whitespace ch s = ([], s\<lparr>pos := length (data s)\<rparr>)"
  using assms
proof (induction "length (data s) - pos s" arbitrary: ch s)
  case 0
  then have "pos s = length (data s)" by simp
  then have "next_char s = ([], s)" by (simp add: next_char_def)
  moreover have "s\<lparr>pos := length (data s)\<rparr> = s" using \<open>pos s = length (data s)\<close> by simp
  ultimately show ?case
    using 0 by (subst skip_whitespace.simps, simp) (simp add: skip_whitespace.simps)
next
  case (Suc n)
  then have lt: "pos s < length (data s)" by simp
  let ?c = "[decode_latin1 (data s ! pos s)]" and ?s = "s\<lparr>pos := pos s + 1\<rparr>"
  have nc: "next_char s = (?c, ?s)" using lt by (simp add: next_char_def)
  have "skip_whitespace ?c ?s = ([], ?s\<lparr>pos := length (data ?s)\<rparr>)"
  proof (rule Suc.hyps(1))
    show "n = length (data ?s) - pos ?s" using Suc.hyps(2) by simp
    show "\<forall>i. pos ?s \<le> i \<and> i < length (data ?s) \<longrightarrow> is_whitespace [decode_latin1 (data ?s ! i)]"
      using Suc.prems(1) by simp
    show "?c \<noteq> []" by simp
    show "is_whitespace ?c" using Suc.prems(1) lt by simp
    show "pos ?s \<le> length (data ?s)" using lt by simp
  qed
  then show ?case
    using Suc.prems(2,3) nc by (subst skip_whitespace.simps) simp
qed

lemma next_token_whitespace_only:
  assumes "pos s < length (data s)"
    and "\<forall>i. pos s \<le> i \<and> i < length (data s) \<longrightarrow> is_whitespace [decode_latin1 (data s ! i)]"
  shows "next_token s
         = (Inr (Some \<lparr>byte_offset = int (length (data s)) - 1, token_type = NUMBER,
                        token_text = []\<rparr>),
            s\<lparr>pos := length (data s)\<rparr>)"
proof -
  let ?c = "[decode_latin1 (data s ! pos s)]" and ?s = "s\<lparr>pos := Suc (pos s)\<rparr>"
  have nc: "next_char s = (?c, ?s)" using assms(1) by (simp add: next_char_def)
  have "skip_whitespace ?c ?s = ([], ?s\<lparr>pos := length (data ?s)\<rparr>)"
    using assms by (intro skip_whitespace_to_end) simp_all
  then have sk: "skip_whitespace ?c ?s = ([], s\<lparr>pos := length (data s)\<rparr>)" by simp
  have nl: "number_loop [] (s\<lparr>pos := length (data s)\<rparr>) []
            = ([], s\<lparr>pos := length (data s)\<rparr>, [])"
    by (simp add: number_loop.simps)
  show ?thesis
    by (simp add: next_token_def nc sk nl unread_def token_def tell_def)
qed

text \<open>
  The string loop, entered at a nesting level of at least 1, leaves with a character in
  \<^verbatim>\<open>ch\<close> only right after it has appended the closing parenthesis. So the test
  \<^verbatim>\<open>out_str.endswith("\\")\<close> after the loop never succeeds, and \<^verbatim>\<open>next_token\<close> raises the
  syntax error for an unterminated escape on no input.
\<close>

lemma string_loop_closes:
  "string_loop s out_str level = (ch, s', out') \<Longrightarrow> ch \<noteq> [] \<Longrightarrow> 1 \<le> level \<Longrightarrow>
   out' \<noteq> [] \<and> last out' = CHR '')''"
proof (induction s out_str level rule: string_loop.induct)
  case (1 s out_str level)
  obtain c s1 where nc: "next_char s = (c, s1)" by (cases "next_char s")
  show ?case
  proof (cases "length c = 0")
    case True
    with "1.prems" nc show ?thesis by (simp add: string_loop.simps [of s])
  next
    case nonempty: False
    show ?thesis
    proof (cases "c = [CHR 0x5C]")
      case True
      obtain c2 s2 where nc2: "next_char s1 = (c2, s2)" by (cases "next_char s1")
      from "1.prems"(1) nc nc2 True
      have "string_loop s2 (out_str @ [CHR 0x5C] @ c2) level = (ch, s', out')"
        by (simp add: string_loop.simps [of s])
      from "1.IH"(1) [OF nc [symmetric] refl nonempty True nc2 [symmetric] refl this "1.prems"(2,3)]
      show ?thesis .
    next
      case False
      define level1 where "level1 = (if c = ''('' then level + 1 else level)"
      define level2 where "level2 = (if c = '')'' then level1 - 1 else level1)"
      have step: "string_loop s out_str level
                  = (if level2 = 0 then (c, s1, out_str @ c) else string_loop s1 (out_str @ c) level2)"
        using nc nonempty False by (simp add: string_loop.simps [of s] level1_def level2_def Let_def)
      show ?thesis
      proof (cases "level2 = 0")
        case True
        with "1.prems"(3) have "c = '')''"
          by (auto simp: level1_def level2_def split: if_splits)
        moreover from step True "1.prems"(1) have "out' = out_str @ c" by simp
        ultimately show ?thesis by simp
      next
        case nz: False
        with "1.prems"(3) have pos2: "1 \<le> level2"
          by (auto simp: level1_def level2_def split: if_splits)
        from step nz "1.prems"(1) have "string_loop s1 (out_str @ c) level2 = (ch, s', out')"
          by simp
        from "1.IH"(2) [OF nc [symmetric] refl nonempty False level1_def level2_def refl nz this "1.prems"(2) pos2]
        show ?thesis .
      qed
    qed
  qed
qed

lemma unterminated_escape_unreachable:
  "fst (next_token s) \<noteq> Inl (PDFSyntaxError ''unterminated escape sequence'' n)"
proof -
  have dead: "\<not> endswith out' [CHR 0x5C]"
    if "string_loop s1 ''('' 1 = (ch, s', out')" and "ch \<noteq> []" for s1 ch s' out'
  proof -
    from string_loop_closes [OF that] have "out' \<noteq> []" "last out' = CHR '')''" by simp_all
    then show ?thesis
      by (cases out' rule: rev_cases) (auto simp: endswith_def)
  qed
  obtain c0 s0 where n0: "next_char s = (c0, s0)" by (cases "next_char s")
  obtain c1 s1 where sk: "skip_whitespace c0 s0 = (c1, s1)" by (cases "skip_whitespace c0 s0")
  obtain c2 s2 o2 where sl: "string_loop s1 ''('' 1 = (c2, s2, o2)"
    by (cases "string_loop s1 ''('' 1")
  show ?thesis
    using dead [OF sl]
    by (simp add: next_token_def Let_def token_def n0 sk sl split: prod.splits)
qed

section \<open>The width of a glyph line\<close>

text \<open>
  C8. One glyph of width 1000 at font size 12, no spacing, scaling 100: the claim expects
  exactly 12. The factor is \<^verbatim>\<open>Decimal(0.001)\<close>, the value of a binary float slightly
  above one thousandth, and the product, rounded to 28 digits, is
  12.00000000000000024980018054.
\<close>

theorem one_glyph_width:
  "get_width_in_text_space
     \<lparr>glyphs = [\<lparr>character_code = c, unicode_str = u, width = 1000\<rparr>], font = f,
      font_size = 12, character_spacing = 0, word_spacing = 0, horizontal_scaling = 100\<rparr>
   = 1200000000000000024980018054 / 10 ^ 26"
proof -
  have m: "dec_mul (dec_mul 1000 12) Decimal_0_001 = 1200000000000000024980018054 / 10 ^ 26"
    by (simp add: dec_eval Decimal_0_001_def)
  have a: "dec_add (1200000000000000024980018054 / 10 ^ 26) 0
             = 1200000000000000024980018054 / 10 ^ 26"
    by (simp add: dec_eval)
  have a': "dec_add 0 (1200000000000000024980018054 / 10 ^ 26)
             = 1200000000000000024980018054 / 10 ^ 26"
    by (simp add: dec_eval)
  have s: "dec_sub (1200000000000000024980018054 / 10 ^ 26) 0
             = 1200000000000000024980018054 / 10 ^ 26"
    by (simp add: dec_eval)
  have d: "dec_div 100 100 = 1"
    by (simp add: dec_eval)
  have o: "dec_mul (1200000000000000024980018054 / 10 ^ 26) 1
             = 1200000000000000024980018054 / 10 ^ 26"
    by (simp add: dec_eval)
  show ?thesis
    by (simp add: get_width_in_text_space_def glyph_width_in_text_space_def Let_def m d o a a' s
        del: power_numeral)
qed

section \<open>Rounding is symmetric\<close>

lemma round_prec_minus: "round_prec (- q) = - round_prec q"
  by (simp add: round_prec_def Let_def sgn_minus)

lemma dec_sub_swap: "dec_sub b a = - dec_sub a b"
  using round_prec_minus [of "a - b"] by (simp add: dec_sub_def)

lemma dec_neg_eq: "dec_neg a = - round_prec a"
  by (simp add: dec_neg_def round_prec_minus)

lemma dec_sub_self: "dec_sub a a = 0"
  by (simp add: dec_sub_def round_prec_def)

lemmas dec_mod_eval = dec_mod_def trunc_def dec_eval

section \<open>Rounding a rounded value\<close>

text \<open>
  \<open>adjusted\<close> finds the decade of a positive value, so \<open>round_prec\<close> scales it to 28
  digits before the point; a value that is already a result of \<open>round_prec\<close> is left as it
  is. In Python: \<^verbatim>\<open>x + Decimal(0) == x\<close> for every result \<^verbatim>\<open>x\<close> of an operator.
\<close>

lemma pow10_powi: "pow10 e = 10 powi e"
  by (simp add: pow10_def power_int_def inverse_eq_divide power_one_over)

lemma ndigits_bounds: "0 < n \<Longrightarrow> 10 ^ (ndigits n - 1) \<le> n \<and> n < 10 ^ ndigits n"
proof (induction n rule: ndigits.induct)
  case (1 n)
  show ?case
  proof (cases "n < 10")
    case True
    with "1.prems" show ?thesis by (simp add: ndigits.simps [of n])
  next
    case False
    then have pos: "0 < n div 10" by simp
    from "1.IH" [OF False pos]
    have lo: "10 ^ (ndigits (n div 10) - 1) \<le> n div 10" and hi: "n div 10 < 10 ^ ndigits (n div 10)"
      by simp_all
    have nd: "ndigits n = Suc (ndigits (n div 10))"
      using False by (simp add: ndigits.simps [of n])
    have "10 * 10 ^ (ndigits (n div 10) - 1) \<le> 10 * (n div 10)" using lo by simp
    also have "\<dots> \<le> n" by simp
    finally have a: "10 ^ (ndigits n - 1) \<le> n"
      using nd hi by (cases "ndigits (n div 10)") simp_all
    have "n < 10 * (n div 10 + 1)" by presburger
    also have "\<dots> \<le> 10 * 10 ^ ndigits (n div 10)" using hi by simp
    finally have b: "n < 10 ^ ndigits n" using nd by simp
    from a b show ?thesis ..
  qed
qed

lemma ndigits_pos: "0 < ndigits n"
  by (simp add: ndigits.simps [of n])

text \<open>For a rational at least 1, the digits of its integer part give its magnitude.\<close>

lemma magnitude_of_floor:
  fixes q :: rat
  assumes "1 \<le> q"
  shows "10 ^ (ndigits (nat \<lfloor>q\<rfloor>) - 1) \<le> q \<and> q < 10 ^ ndigits (nat \<lfloor>q\<rfloor>)"
proof -
  let ?m = "nat \<lfloor>q\<rfloor>"
  have f1: "1 \<le> \<lfloor>q\<rfloor>" using assms by simp
  then have mpos: "0 < ?m" by simp
  have fm: "\<lfloor>q\<rfloor> = int ?m" using f1 by simp
  from ndigits_bounds [OF mpos]
  have lo: "10 ^ (ndigits ?m - 1) \<le> ?m" and hi: "?m < 10 ^ ndigits ?m" by simp_all
  have "(10::rat) ^ (ndigits ?m - 1) = of_nat (10 ^ (ndigits ?m - 1))" by simp
  also have "\<dots> \<le> of_nat ?m" using lo by (simp only: of_nat_le_iff)
  also have "\<dots> = of_int \<lfloor>q\<rfloor>" using f1 by (simp add: of_nat_nat)
  also have "\<dots> \<le> q" by simp
  finally have a: "10 ^ (ndigits ?m - 1) \<le> q" .
  have "\<lfloor>q\<rfloor> + 1 \<le> 10 ^ ndigits ?m"
    using hi fm by (metis Suc_leI add.commute int_ops(2) of_nat_Suc of_nat_le_iff of_nat_numeral of_nat_power plus_1_eq_Suc)
  then have "(of_int (\<lfloor>q\<rfloor> + 1) :: rat) \<le> of_int (10 ^ ndigits ?m)"
    by (simp only: of_int_le_iff)
  moreover have "q < of_int (\<lfloor>q\<rfloor> + 1)" by linarith
  ultimately have b: "q < 10 ^ ndigits ?m" by simp
  from a b show ?thesis ..
qed

lemma adjusted_bounds:
  assumes "0 < q"
  shows "10 powi adjusted q \<le> q \<and> q < 10 powi (adjusted q + 1)"
proof (cases "1 \<le> q")
  case True
  let ?d = "ndigits (nat \<lfloor>q\<rfloor>)"
  have d: "0 < ?d" by (rule ndigits_pos)
  have adj: "adjusted q = int ?d - 1" using True by (simp add: adjusted_def)
  have e1: "int ?d - 1 = int (?d - 1)" using d by simp
  have p1: "(10::rat) powi (int ?d - 1) = 10 ^ (?d - 1)"
    unfolding e1 by (rule power_int_of_nat)
  have p2: "(10::rat) powi (int ?d - 1 + 1) = 10 ^ ?d" by simp
  from magnitude_of_floor [OF True] show ?thesis
    unfolding adj p1 p2 .
next
  case False
  with assms have q1: "q < 1" by simp
  let ?r = "1 / q"
  let ?k = "ndigits (nat \<lfloor>?r\<rfloor>)"
  have r1: "1 \<le> ?r" using assms q1 by simp
  have k: "0 < ?k" by (rule ndigits_pos)
  from magnitude_of_floor [OF r1]
  have lo: "10 ^ (?k - 1) \<le> ?r" and hi: "?r < 10 ^ ?k" by simp_all
  have qle: "q \<le> 1 / 10 ^ (?k - 1)"
    using lo assms by (simp add: field_simps)
  have qgt: "1 / 10 ^ ?k < q"
    using hi assms by (simp add: field_simps)
  have e1: "1 - int ?k = - int (?k - 1)" using k by simp
  have p1: "(10::rat) powi (1 - int ?k) = 1 / 10 ^ (?k - 1)"
    unfolding e1 by (simp add: power_int_minus inverse_eq_divide)
  have p0: "(10::rat) powi (- int ?k) = 1 / 10 ^ ?k"
    by (simp add: power_int_minus inverse_eq_divide)
  show ?thesis
  proof (cases "q = pow10 (1 - int ?k)")
    case True
    then have adj: "adjusted q = 1 - int ?k" using False by (simp add: adjusted_def Let_def)
    have "q = 10 powi (1 - int ?k)" using True by (simp add: pow10_powi)
    moreover have "(10::rat) powi (1 - int ?k) < 10 powi (1 - int ?k + 1)"
      by (rule power_int_strict_increasing) simp_all
    ultimately show ?thesis unfolding adj by simp
  next
    case ne: False
    then have adj: "adjusted q = - int ?k" using False by (simp add: adjusted_def Let_def)
    have "q \<noteq> 10 powi (1 - int ?k)" using ne by (simp add: pow10_powi)
    with qle have "q < 10 powi (1 - int ?k)" unfolding p1 by simp
    moreover have "- int ?k + 1 = 1 - int ?k" by simp
    ultimately show ?thesis unfolding adj using qgt p0 by simp
  qed
qed

lemma adjusted_eqI:
  assumes "0 < q" and "10 powi e \<le> q" and "q < 10 powi (e + 1)"
  shows "adjusted q = e"
proof -
  from adjusted_bounds [OF assms(1)]
  have lo: "10 powi adjusted q \<le> q" and hi: "q < 10 powi (adjusted q + 1)" by simp_all
  have "adjusted q < e + 1"
  proof (rule ccontr)
    assume "\<not> adjusted q < e + 1"
    then have "(10::rat) powi (e + 1) \<le> 10 powi adjusted q"
      by (intro power_int_increasing) simp_all
    with lo assms(3) show False by simp
  qed
  moreover have "e < adjusted q + 1"
  proof (rule ccontr)
    assume "\<not> e < adjusted q + 1"
    then have "(10::rat) powi (adjusted q + 1) \<le> 10 powi e"
      by (intro power_int_increasing) simp_all
    with hi assms(2) show False by simp
  qed
  ultimately show ?thesis by simp
qed

lemma round_half_even_of_int: "round_half_even (of_int n) = n"
  by (simp add: round_half_even_def)

lemma round_half_even_lower: "of_int a \<le> q \<Longrightarrow> a \<le> round_half_even q"
proof -
  assume "of_int a \<le> q"
  then have "a \<le> \<lfloor>q\<rfloor>" by (simp add: le_floor_iff)
  then show ?thesis by (simp add: round_half_even_def Let_def)
qed

lemma round_half_even_upper: "q \<le> of_int b \<Longrightarrow> round_half_even q \<le> b"
proof (cases "q = of_int b")
  case True
  then show ?thesis by (simp add: round_half_even_of_int)
next
  case False
  assume "q \<le> of_int b"
  with False have "q < of_int b" by simp
  then have "\<lfloor>q\<rfloor> < b" by (simp add: floor_less_iff)
  then show ?thesis by (simp add: round_half_even_def Let_def)
qed

lemma pow_shift: "(10::rat) ^ k * 10 powi e = 10 powi (int k + e)"
  by (simp add: power_int_add)

lemma round_prec_idem: "round_prec (round_prec q) = round_prec q"
proof (cases "q = 0")
  case True
  then show ?thesis by (simp add: round_prec_def)
next
  case q0: False
  define a where "a = adjusted \<bar>q\<bar>"
  define n where "n = round_half_even (\<bar>q\<bar> * 10 powi (27 - a))"
  define r where "r = round_prec q"
  have aq: "0 < \<bar>q\<bar>" using q0 by simp
  from adjusted_bounds [OF aq]
  have lo: "10 powi a \<le> \<bar>q\<bar>" and hi: "\<bar>q\<bar> < 10 powi (a + 1)" by (simp_all add: a_def)
  have ppos: "(0::rat) < 10 powi (27 - a)" by simp
  have "10 powi a * 10 powi (27 - a) \<le> \<bar>q\<bar> * 10 powi (27 - a)"
    using lo ppos by (simp only: mult_le_cancel_right_pos)
  moreover have "(10::rat) powi a * 10 powi (27 - a) = 10 ^ 27"
    by (simp flip: power_int_add)
  ultimately have slo: "of_int (10 ^ 27) \<le> \<bar>q\<bar> * 10 powi (27 - a)" by simp
  have "\<bar>q\<bar> * 10 powi (27 - a) < 10 powi (a + 1) * 10 powi (27 - a)"
    using hi ppos by (simp only: mult_less_cancel_right_pos)
  moreover have "(10::rat) powi (a + 1) * 10 powi (27 - a) = 10 ^ 28"
    by (simp flip: power_int_add)
  ultimately have shi: "\<bar>q\<bar> * 10 powi (27 - a) \<le> of_int (10 ^ 28)" by simp
  have nlo: "10 ^ 27 \<le> n" unfolding n_def using slo by (rule round_half_even_lower)
  have nhi: "n \<le> 10 ^ 28" unfolding n_def using shi by (rule round_half_even_upper)
  have npos: "0 < n" using nlo by simp
  have rdef: "r = sgn q * of_int n * 10 powi (a - 27)"
    using q0 by (simp add: r_def round_prec_def Let_def a_def n_def pow10_powi)
  have rabs: "\<bar>r\<bar> = of_int n * 10 powi (a - 27)"
    using q0 npos by (simp add: rdef abs_mult)
  have rsgn: "sgn r = sgn q"
    using q0 npos by (simp add: rdef sgn_mult)
  have r0: "r \<noteq> 0" using q0 npos by (simp add: rdef sgn_eq_0_iff)
  have rpos: "0 < \<bar>r\<bar>" using r0 by simp
  have scale: "(10::rat) ^ 27 * 10 powi (a - 27) = 10 powi a"
    using pow_shift [of 27 "a - 27"] by simp
  have scale': "(10::rat) ^ 28 * 10 powi (a - 27) = 10 powi (a + 1)"
    using pow_shift [of 28 "a - 27"] by (simp add: algebra_simps)
  show ?thesis
  proof (cases "n = 10 ^ 28")
    case False
    with nhi have nlt: "n < 10 ^ 28" by simp
    have qpos: "(0::rat) < 10 powi (a - 27)" by simp
    have "of_int (10 ^ 27) * 10 powi (a - 27) \<le> \<bar>r\<bar>"
      unfolding rabs using nlo qpos by (simp only: mult_le_cancel_right_pos of_int_le_iff)
    then have l: "10 powi a \<le> \<bar>r\<bar>" using scale by simp
    have "\<bar>r\<bar> < of_int (10 ^ 28) * 10 powi (a - 27)"
      unfolding rabs using nlt qpos by (simp only: mult_less_cancel_right_pos of_int_less_iff)
    then have h: "\<bar>r\<bar> < 10 powi (a + 1)" using scale' by simp
    have adj: "adjusted \<bar>r\<bar> = a" using rpos l h by (rule adjusted_eqI)
    have unit: "(10::rat) powi (a - 27) * 10 powi (27 - a) = 1"
      by (simp flip: power_int_add)
    have "\<bar>r\<bar> * 10 powi (27 - a) = of_int n * (10 powi (a - 27) * 10 powi (27 - a))"
      by (simp add: rabs mult.assoc)
    then have bk: "\<bar>r\<bar> * 10 powi (27 - a) = of_int n"
      unfolding unit by simp
    have "round_prec r = sgn r * of_int (round_half_even (\<bar>r\<bar> * 10 powi (27 - a))) * 10 powi (a - 27)"
      using r0 by (simp add: round_prec_def Let_def adj pow10_powi)
    also have "\<dots> = r"
      unfolding bk round_half_even_of_int rsgn by (simp add: rdef)
    finally show ?thesis by (simp add: r_def)
  next
    case True
    have rabs': "\<bar>r\<bar> = 10 powi (a + 1)"
      using rabs True scale' by simp
    have l: "10 powi (a + 1) \<le> \<bar>r\<bar>" using rabs' by simp
    have h: "\<bar>r\<bar> < 10 powi (a + 1 + 1)"
      unfolding rabs' by (rule power_int_strict_increasing) simp_all
    have adj: "adjusted \<bar>r\<bar> = a + 1" using rpos l h by (rule adjusted_eqI)
    have "\<bar>r\<bar> * 10 powi (27 - (a + 1)) = 10 powi (a + 1 + (27 - (a + 1)))"
      unfolding rabs' by (simp flip: power_int_add)
    then have bk: "\<bar>r\<bar> * 10 powi (27 - (a + 1)) = of_int (10 ^ 27)" by simp
    have "round_prec r
          = sgn r * of_int (round_half_even (\<bar>r\<bar> * 10 powi (27 - (a + 1)))) * 10 powi (a + 1 - 27)"
      using r0 by (simp add: round_prec_def Let_def adj pow10_powi)
    also have "\<dots> = sgn q * (10 ^ 27 * 10 powi (a + 1 - 27))"
      unfolding bk round_half_even_of_int by (simp add: rsgn)
    also have "(10::rat) ^ 27 * 10 powi (a + 1 - 27) = 10 powi (a + 1)"
    proof -
      have "(10::rat) ^ 27 * 10 powi (a + 1 - 27) = 10 powi (int 27 + (a + 1 - 27))"
        by (rule pow_shift)
      also have "int 27 + (a + 1 - 27) = a + 1" by simp
      finally show ?thesis .
    qed
    also have "sgn q * 10 powi (a + 1) = r"
      using rdef True scale' by (simp add: mult.assoc)
    finally show ?thesis by (simp add: r_def)
  qed
qed

lemma dec_add_zero_rounded: "dec_add (dec_add a b) 0 = dec_add a b"
  "dec_add 0 (dec_add a b) = dec_add a b" "dec_add (dec_mul a b) 0 = dec_mul a b"
  by (simp_all add: dec_add_def dec_mul_def round_prec_idem)

section \<open>The comparator\<close>

text \<open>
  C9, as the code has it. \<^verbatim>\<open>cmp(b, a)\<close> is the negation of \<^verbatim>\<open>cmp(a, b)\<close> for all events,
  and when one raises, so does the other. \<^verbatim>\<open>cmp(a, a)\<close> is 0 for every event on whose
  baseline \<^verbatim>\<open>%\<close> is defined, that is, whose \<open>y0\<close> is below \<open>5 * 10 ^ 28\<close> in magnitude;
  on any other event it raises InvalidOperation.
\<close>

theorem cmp_antisymmetric:
  "cmp obj1 obj0 = map_option uminus (cmp obj0 obj1) \<and>
   cmp obj0 obj0 = (if \<bar>trunc (y0 (baseline obj0) / 5)\<bar> < 10 ^ 28 then Some 0 else None)"
proof
  show "cmp obj1 obj0 = map_option uminus (cmp obj0 obj1)"
  proof (cases "dec_mod (y0 (baseline obj0)) 5")
    case None
    then show ?thesis by (simp add: cmp_def split: option.splits)
  next
    case r0: (Some r0)
    show ?thesis
    proof (cases "dec_mod (y0 (baseline obj1)) 5")
      case None
      then show ?thesis by (simp add: cmp_def split: option.splits)
    next
      case r1: (Some r1)
      have "dec_neg (dec_sub (dec_sub (y0 (baseline obj1)) r1) (dec_sub (y0 (baseline obj0)) r0))
            = - dec_neg (dec_sub (dec_sub (y0 (baseline obj0)) r0) (dec_sub (y0 (baseline obj1)) r1))"
        using dec_sub_swap [of "dec_sub (y0 (baseline obj1)) r1" "dec_sub (y0 (baseline obj0)) r0"]
        by (simp add: dec_neg_eq round_prec_minus)
      moreover have "dec_sub (x0 (baseline obj1)) (x0 (baseline obj0))
            = - dec_sub (x0 (baseline obj0)) (x0 (baseline obj1))"
        by (rule dec_sub_swap)
      ultimately show ?thesis
        using r0 r1 by (auto simp add: cmp_def Let_def)
    qed
  qed
next
  show "cmp obj0 obj0 = (if \<bar>trunc (y0 (baseline obj0) / 5)\<bar> < 10 ^ 28 then Some 0 else None)"
    by (simp add: cmp_def dec_mod_def Let_def dec_sub_self)
qed

text \<open>
  Two events in the band of 100, at \<open>y = 101, x = 3\<close> and at \<open>y = 104, x = 7\<close>: the first
  sorts before the second by 4, the second after the first by 4.
\<close>

theorem cmp_antisymmetric_witness:
  "cmp (sample_event [] \<lparr>x0 = 7, y0 = 104, x1 = 9, y1 = 104\<rparr> 0)
       (sample_event [] \<lparr>x0 = 3, y0 = 101, x1 = 5, y1 = 101\<rparr> 0) = Some 4 \<and>
   cmp (sample_event [] \<lparr>x0 = 3, y0 = 101, x1 = 5, y1 = 101\<rparr> 0)
       (sample_event [] \<lparr>x0 = 3, y0 = 101, x1 = 5, y1 = 101\<rparr> 0) = Some 0"
proof -
  have m1: "dec_mod 101 5 = Some 1" and m4: "dec_mod 104 5 = Some 4"
    by (simp_all add: dec_mod_eval)
  have s1: "dec_sub 101 1 = 100" and s4: "dec_sub 104 4 = 100" and sx: "dec_sub 3 7 = - 4"
    by (simp_all add: dec_eval)
  have ab: "cmp (sample_event [] \<lparr>x0 = 3, y0 = 101, x1 = 5, y1 = 101\<rparr> 0)
                (sample_event [] \<lparr>x0 = 7, y0 = 104, x1 = 9, y1 = 104\<rparr> 0) = Some (- 4)"
    by (simp add: cmp_def sample_event_def m1 m4 s1 s4 sx)
  have t: "\<bar>trunc ((101 :: rat) / 5)\<bar> < 10 ^ 28"
    by (simp add: trunc_def)
  show ?thesis
    using cmp_antisymmetric
            [of "sample_event [] \<lparr>x0 = 7, y0 = 104, x1 = 9, y1 = 104\<rparr> 0"
                "sample_event [] \<lparr>x0 = 3, y0 = 101, x1 = 5, y1 = 101\<rparr> 0"]
          ab t
    by (simp add: sample_event_def)
qed

text \<open>
  C9, as stated, fails on an event whose baseline is at \<open>y0 = 5 * 10 ^ 28\<close>: the quotient
  by 5 has 29 digits, \<^verbatim>\<open>%\<close> raises, and \<^verbatim>\<open>cmp(a, a)\<close> returns no value, not 0.
\<close>

theorem cmp_self_raises:
  "cmp (sample_event [] \<lparr>x0 = 0, y0 = 50000000000000000000000000000, x1 = 1,
                          y1 = 50000000000000000000000000000\<rparr> 0)
       (sample_event [] \<lparr>x0 = 0, y0 = 50000000000000000000000000000, x1 = 1,
                          y1 = 50000000000000000000000000000\<rparr> 0) = None"
  by (simp add: cmp_def dec_mod_def trunc_def sample_event_def Let_def)

section \<open>The baseline of a line\<close>

text \<open>
  C7, as the code has it. For a line of exactly one event, \<^verbatim>\<open>get_baseline\<close> returns the
  segment from the smaller to the larger x-endpoint of that event, at the event's \<open>y0\<close>:
  \<^verbatim>\<open>max_x\<close> starts at the minimum, and the loop, which visits the first event too, raises
  it to the maximum.
\<close>

theorem get_baseline_single:
  "get_baseline \<lparr>contained_events = [e]\<rparr>
     = Inr \<lparr>x0 = min (x0 (baseline e)) (x1 (baseline e)), y0 = y0 (baseline e),
            x1 = max (x0 (baseline e)) (x1 (baseline e)), y1 = y0 (baseline e)\<rparr>"
  by (simp add: get_baseline_def Let_def min_def max_def)

text \<open>
  C7, as stated, fails: for the single event with baseline from \<open>x = 0\<close> to \<open>x = 10\<close> the
  result is not the segment collapsed to \<open>min 0 10\<close> at both ends.
\<close>

theorem get_baseline_single_not_collapsed:
  "get_baseline
     \<lparr>contained_events =
        [sample_event [\<lparr>character_code = 65, unicode_str = [65], width = 500\<rparr>]
           \<lparr>x0 = 0, y0 = 0, x1 = 10, y1 = 0\<rparr> 0]\<rparr>
     \<noteq> Inr \<lparr>x0 = min 0 10, y0 = 0, x1 = min 0 10, y1 = 0\<rparr>"
  by (simp add: get_baseline_def Let_def sample_event_def)

section \<open>The width of a string and of its glyph line\<close>

lemma character_width_eq:
  assumes "word_spacing gl = 0 \<or> unicode_str g \<notin> {[9], [10], [11], [12], [13]}"
    and "gs_font_size gs = font_size gl" and "gs_character_spacing gs = character_spacing gl"
    and "gs_word_spacing gs = word_spacing gl" and "gs_horizontal_scaling gs = horizontal_scaling gl"
  shows "character_width gs g = glyph_width_in_text_space gl g"
proof (cases "word_spacing gl = 0")
  case True
  then show ?thesis
    using assms(2-)
    by (simp add: character_width_def glyph_width_in_text_space_def Let_def dec_add_zero_rounded)
next
  case False
  with assms(1) have ne: "unicode_str g \<notin> {[9], [10], [11], [12], [13]}" by simp
  have "(length (unicode_str g) = 1 \<and> isspace (hd (unicode_str g))) = (unicode_str g = [32])"
  proof (cases "unicode_str g")
    case Nil
    then show ?thesis by simp
  next
    case (Cons c cs)
    with ne show ?thesis by (cases cs) (auto simp: isspace_def)
  qed
  then show ?thesis
    using assms(2-) by (auto simp add: character_width_def glyph_width_in_text_space_def Let_def)
qed

lemma width_loops_eq:
  assumes "word_spacing gl = 0 \<or> (\<forall>g \<in> set gls. unicode_str g \<notin> {[9], [10], [11], [12], [13]})"
    and "gs_font_size gs = font_size gl" and "gs_character_spacing gs = character_spacing gl"
    and "gs_word_spacing gs = word_spacing gl" and "gs_horizontal_scaling gs = horizontal_scaling gl"
  shows "string_width_loop gs gls w = get_width_loop gl gls w"
  using assms(1)
proof (induction gls arbitrary: w)
  case Nil
  show ?case by simp
next
  case (Cons g gls)
  then have "word_spacing gl = 0 \<or> unicode_str g \<notin> {[9], [10], [11], [12], [13]}" by auto
  then have "character_width gs g = glyph_width_in_text_space gl g"
    using assms(2-) by (rule character_width_eq)
  moreover from Cons.prems
  have "word_spacing gl = 0 \<or> (\<forall>g \<in> set gls. unicode_str g \<notin> {[9], [10], [11], [12], [13]})"
    by auto
  ultimately show ?case using Cons.IH by simp
qed

text \<open>
  C5, as the code has it. \<^verbatim>\<open>_get_pdf_string_width_in_text_space\<close> adds the word spacing
  for a glyph whose text is the space \<^verbatim>\<open>" "\<close> only, \<^verbatim>\<open>get_width_in_text_space\<close> for every
  one-character text in the whitespace set. With the same four scalars the two widths are
  equal whenever the word spacing is 0, or no glyph of the line has as its text one of the
  characters 9, 10, 11, 12 and 13.
\<close>

theorem string_width_eq_glyph_line_width:
  assumes "word_spacing gl = 0
           \<or> (\<forall>g \<in> set (glyphs gl). unicode_str g \<notin> {[9], [10], [11], [12], [13]})"
    and "glyph_line e = glyphs gl"
    and "gs_font_size gs = font_size gl" and "gs_character_spacing gs = character_spacing gl"
    and "gs_word_spacing gs = word_spacing gl" and "gs_horizontal_scaling gs = horizontal_scaling gl"
  shows "get_pdf_string_width_in_text_space e gs = get_width_in_text_space gl"
  using width_loops_eq [OF assms(1) assms(3-)] assms(2,4)
  by (simp add: get_pdf_string_width_in_text_space_def get_width_in_text_space_def)

text \<open>
  A line of the letter A and a space with word spacing 5, and a line of a tab with word
  spacing 0: the hypotheses hold and the two widths agree.
\<close>

theorem string_width_eq_glyph_line_width_witness:
  "get_pdf_string_width_in_text_space
     (sample_event [\<lparr>character_code = 65, unicode_str = [65], width = 1000\<rparr>,
                    \<lparr>character_code = 32, unicode_str = [32], width = 1000\<rparr>]
        \<lparr>x0 = 0, y0 = 0, x1 = 29, y1 = 0\<rparr> 3)
     (sample_state\<lparr>gs_word_spacing := 5\<rparr>)
   = get_width_in_text_space
       \<lparr>glyphs = [\<lparr>character_code = 65, unicode_str = [65], width = 1000\<rparr>,
                  \<lparr>character_code = 32, unicode_str = [32], width = 1000\<rparr>],
        font = single_byte_font, font_size = 12, character_spacing = 0, word_spacing = 5,
        horizontal_scaling = 100\<rparr>
   \<and> get_pdf_string_width_in_text_space
       (sample_event [\<lparr>character_code = 9, unicode_str = [9], width = 1000\<rparr>]
          \<lparr>x0 = 0, y0 = 0, x1 = 12, y1 = 0\<rparr> 3)
       sample_state
     = get_width_in_text_space
         \<lparr>glyphs = [\<lparr>character_code = 9, unicode_str = [9], width = 1000\<rparr>],
          font = single_byte_font, font_size = 12, character_spacing = 0, word_spacing = 0,
          horizontal_scaling = 100\<rparr>"
proof
  show "get_pdf_string_width_in_text_space
     (sample_event [\<lparr>character_code = 65, unicode_str = [65], width = 1000\<rparr>,
                    \<lparr>character_code = 32, unicode_str = [32], width = 1000\<rparr>]
        \<lparr>x0 = 0, y0 = 0, x1 = 29, y1 = 0\<rparr> 3)
     (sample_state\<lparr>gs_word_spacing := 5\<rparr>)
   = get_width_in_text_space
       \<lparr>glyphs = [\<lparr>character_code = 65, unicode_str = [65], width = 1000\<rparr>,
                  \<lparr>character_code = 32, unicode_str = [32], width = 1000\<rparr>],
        font = single_byte_font, font_size = 12, character_spacing = 0, word_spacing = 5,
        horizontal_scaling = 100\<rparr>"
    by (rule string_width_eq_glyph_line_width) (simp_all add: sample_event_def sample_state_def)
  show "get_pdf_string_width_in_text_space
       (sample_event [\<lparr>character_code = 9, unicode_str = [9], width = 1000\<rparr>]
          \<lparr>x0 = 0, y0 = 0, x1 = 12, y1 = 0\<rparr> 3)
       sample_state
     = get_width_in_text_space
         \<lparr>glyphs = [\<lparr>character_code = 9, unicode_str = [9], width = 1000\<rparr>],
          font = single_byte_font, font_size = 12, character_spacing = 0, word_spacing = 0,
          horizontal_scaling = 100\<rparr>"
    by (rule string_width_eq_glyph_line_width) (simp_all add: sample_event_def sample_state_def)
qed

lemma w12: "dec_mul (dec_mul 1000 12) Decimal_0_001 = 1200000000000000024980018054 / 10 ^ 26"
  by (simp add: dec_eval Decimal_0_001_def)

lemma w12_keep:
  "dec_add (1200000000000000024980018054 / 10 ^ 26) 0 = 1200000000000000024980018054 / 10 ^ 26"
  "dec_add 0 (1200000000000000024980018054 / 10 ^ 26) = 1200000000000000024980018054 / 10 ^ 26"
  "dec_sub (1200000000000000024980018054 / 10 ^ 26) 0 = 1200000000000000024980018054 / 10 ^ 26"
  "dec_mul (1200000000000000024980018054 / 10 ^ 26) 1 = 1200000000000000024980018054 / 10 ^ 26"
  "dec_div 100 100 = 1"
  by (simp_all add: dec_eval)

lemma w17:
  "dec_add (1200000000000000024980018054 / 10 ^ 26) 5 = 1700000000000000024980018054 / 10 ^ 26"
  "dec_add (1700000000000000024980018054 / 10 ^ 26) 0 = 1700000000000000024980018054 / 10 ^ 26"
  "dec_add 0 (1700000000000000024980018054 / 10 ^ 26) = 1700000000000000024980018054 / 10 ^ 26"
  "dec_sub (1700000000000000024980018054 / 10 ^ 26) 0 = 1700000000000000024980018054 / 10 ^ 26"
  "dec_mul (1700000000000000024980018054 / 10 ^ 26) 1 = 1700000000000000024980018054 / 10 ^ 26"
  by (simp_all add: dec_eval)

text \<open>
  C5, as stated, fails on a tab: with word spacing 5 and one glyph whose text is the tab character, 1000
  wide, at font size 12, the glyph line is 17.00000000000000024980018054 wide and the
  string 12.00000000000000024980018054.
\<close>

theorem tab_widths_differ:
  "get_pdf_string_width_in_text_space
     (sample_event [\<lparr>character_code = 9, unicode_str = [9], width = 1000\<rparr>]
        \<lparr>x0 = 0, y0 = 0, x1 = 12, y1 = 0\<rparr> 3)
     (sample_state\<lparr>gs_word_spacing := 5\<rparr>)
   \<noteq> get_width_in_text_space
       \<lparr>glyphs = [\<lparr>character_code = 9, unicode_str = [9], width = 1000\<rparr>],
        font = single_byte_font, font_size = 12, character_spacing = 0, word_spacing = 5,
        horizontal_scaling = 100\<rparr>"
  by (simp add: get_pdf_string_width_in_text_space_def get_width_in_text_space_def
      character_width_def glyph_width_in_text_space_def sample_event_def sample_state_def
      isspace_def Let_def w12 w12_keep w17 del: power_numeral)

section \<open>Splitting an event on its glyphs\<close>











section \<open>Building a glyph line from bytes\<close>

lemma init_loop_single_byte:
  assumes ciu: "\<And>c. character_identifier_to_unicode f c = (if c < 256 then Some [u c] else None)"
    and gw: "\<And>c. c < 256 \<Longrightarrow> get_width f c = Some 500"
    and nz: "0 \<notin> set (butlast text_bytes)"
  shows "i \<le> length text_bytes \<Longrightarrow>
         GlyphLine_init_loop f text_bytes i gs
           = gs @ map (\<lambda>b. \<lparr>character_code = unat b, unicode_str = [u (unat b)], width = 500\<rparr>)
                    (drop i text_bytes)"
proof (induction "length text_bytes - i" arbitrary: i gs)
  case 0
  then show ?case by (simp add: GlyphLine_init_loop.simps)
next
  case (Suc n)
  then have lt: "i < length text_bytes" by simp
  have small: "unat (text_bytes ! i) < 256"
    using unsigned_less [of "text_bytes ! i", where ?'a = nat] by simp
  have two: "Suc i < length text_bytes \<Longrightarrow>
             \<not> unat (text_bytes ! i) * 256 + unat (text_bytes ! Suc i) < 256"
  proof -
    assume s: "Suc i < length text_bytes"
    then have "text_bytes ! i \<in> set (butlast text_bytes)"
      by (metis in_set_conv_nth length_butlast less_diff_conv nth_butlast Suc_eq_plus1)
    with nz have "text_bytes ! i \<noteq> 0" by metis
    then have "unat (text_bytes ! i) \<noteq> 0" by (simp add: unsigned_eq_0_iff)
    then show ?thesis by simp
  qed
  have step: "GlyphLine_init_loop f text_bytes i gs
        = GlyphLine_init_loop f text_bytes (Suc i)
            (gs @ [\<lparr>character_code = unat (text_bytes ! i),
                    unicode_str = [u (unat (text_bytes ! i))], width = 500\<rparr>])"
    using lt small two
    by (subst GlyphLine_init_loop.simps) (simp add: ciu gw width_or_zero_def Let_def)
  have "n = length text_bytes - Suc i" using Suc.hyps(2) by simp
  from Suc.hyps(1) [OF this] lt
  have "GlyphLine_init_loop f text_bytes (Suc i)
            (gs @ [\<lparr>character_code = unat (text_bytes ! i),
                    unicode_str = [u (unat (text_bytes ! i))], width = 500\<rparr>])
        = (gs @ [\<lparr>character_code = unat (text_bytes ! i),
                    unicode_str = [u (unat (text_bytes ! i))], width = 500\<rparr>])
          @ map (\<lambda>b. \<lparr>character_code = unat b, unicode_str = [u (unat b)], width = 500\<rparr>)
                    (drop (Suc i) text_bytes)"
    by simp
  with step lt show ?case
    by (simp add: Cons_nth_drop_Suc [symmetric])
qed

text \<open>
  C3, as the code has it. Under a font that maps every code below 256 to a one-character
  string, with width 500, and no other code, the constructor produces one glyph per byte, in
  order, and \<^verbatim>\<open>get_text\<close> is the decoded string, for every byte sequence in which no byte
  but the last is zero.
\<close>

theorem GlyphLine_one_glyph_per_byte:
  assumes "\<And>c. character_identifier_to_unicode f c = (if c < 256 then Some [u c] else None)"
    and "\<And>c. c < 256 \<Longrightarrow> get_width f c = Some 500"
    and "0 \<notin> set (butlast text_bytes)"
  shows "glyphs (GlyphLine_init text_bytes f fs cs ws hs)
           = map (\<lambda>b. \<lparr>character_code = unat b, unicode_str = [u (unat b)], width = 500\<rparr>) text_bytes
         \<and> get_text (GlyphLine_init text_bytes f fs cs ws hs) = map (\<lambda>b. u (unat b)) text_bytes"
proof -
  have g: "glyphs (GlyphLine_init text_bytes f fs cs ws hs)
           = map (\<lambda>b. \<lparr>character_code = unat b, unicode_str = [u (unat b)], width = 500\<rparr>) text_bytes"
    using init_loop_single_byte [OF assms, of 0 "[]"] by (simp add: GlyphLine_init_def)
  have "concat (map unicode_str
          (map (\<lambda>b. \<lparr>character_code = unat b, unicode_str = [u (unat b)], width = 500\<rparr>) bs))
        = map (\<lambda>b. u (unat b)) bs" for bs :: "8 word list"
    by (induction bs) simp_all
  with g show ?thesis by (simp add: get_text_def)
qed

text \<open>The two bytes of \<^verbatim>\<open>Hi\<close> under the single-byte font.\<close>

theorem GlyphLine_one_glyph_per_byte_witness:
  "glyphs (GlyphLine_init [72, 105] single_byte_font 12 0 0 100)
     = [\<lparr>character_code = 72, unicode_str = [72], width = 500\<rparr>,
        \<lparr>character_code = 105, unicode_str = [105], width = 500\<rparr>]
   \<and> get_text (GlyphLine_init [72, 105] single_byte_font 12 0 0 100) = [72, 105]"
  using GlyphLine_one_glyph_per_byte [of single_byte_font "\<lambda>c. c" "[72, 105]" 12 0 0 100]
  by (simp add: single_byte_font_def)

text \<open>
  C3, as stated, fails on a zero byte followed by another byte: the two-byte code
  \<open>0 * 256 + 65\<close> is the single-byte code 65, the font maps it, and the bytes 00 41 give
  one glyph, not two.
\<close>

theorem GlyphLine_zero_byte_pairs:
  "glyphs (GlyphLine_init [0, 65] single_byte_font 12 0 0 100)
     = [\<lparr>character_code = 65, unicode_str = [65], width = 500\<rparr>]
   \<and> length (glyphs (GlyphLine_init [0, 65] single_byte_font 12 0 0 100))
       \<noteq> length [0, 65 :: 8 word]"
  by (simp add: GlyphLine_init_def GlyphLine_init_loop.simps single_byte_font_def
      width_or_zero_def Let_def)

section \<open>Splitting a glyph line\<close>

lemma split_loop_inv:
  assumes "self < length h"
  shows "case split_loop self gs out h of
           (out', h') \<Rightarrow>
             length h' = length h + length gs
             \<and> (\<forall>a < length h. h' ! a = h ! a)
             \<and> out' = out @ [length h ..< length h + length gs]
             \<and> map (\<lambda>a. h' ! a) [length h ..< length h + length gs]
                 = map (\<lambda>g. (h ! self)\<lparr>glyphs := [g]\<rparr>) gs"
  using assms
proof (induction gs arbitrary: out h)
  case Nil
  then show ?case by simp
next
  case (Cons g gs)
  define h2 where "h2 = (h @ [GlyphLine_init [] (font (h ! self)) (font_size (h ! self))
                      (character_spacing (h ! self)) (word_spacing (h ! self))
                      (horizontal_scaling (h ! self))])[length h := (GlyphLine_init [] (font (h ! self)) (font_size (h ! self))
                      (character_spacing (h ! self)) (word_spacing (h ! self))
                      (horizontal_scaling (h ! self)))\<lparr>glyphs := [g]\<rparr>]"
  have unfold: "split_loop self (g # gs) out h = split_loop self gs (out @ [length h]) h2"
    by (simp add: new_GlyphLine_def h2_def Let_def)
  have len2: "length h2 = Suc (length h)" by (simp add: h2_def)
  have old2: "\<And>a. a < length h \<Longrightarrow> h2 ! a = h ! a"
    by (simp add: h2_def nth_append)
  have new2: "h2 ! length h = (h ! self)\<lparr>glyphs := [g]\<rparr>"
    by (simp add: h2_def GlyphLine_init_def GlyphLine_init_loop.simps)
  have self2: "self < length h2" using Cons.prems len2 by simp
  obtain out' h' where r: "split_loop self gs (out @ [length h]) h2 = (out', h')"
    by (cases "split_loop self gs (out @ [length h]) h2")
  from Cons.IH [OF self2, of "out @ [length h]"] r
  have ih: "length h' = length h2 + length gs"
    "\<forall>a < length h2. h' ! a = h2 ! a"
    "out' = (out @ [length h]) @ [length h2 ..< length h2 + length gs]"
    "map (\<lambda>a. h' ! a) [length h2 ..< length h2 + length gs]
       = map (\<lambda>g. (h2 ! self)\<lparr>glyphs := [g]\<rparr>) gs"
    by simp_all
  have a1: "length h' = length h + length (g # gs)" using ih(1) len2 by simp
  have a2: "\<forall>a < length h. h' ! a = h ! a" using ih(2) old2 len2 by simp
  have upt: "[length h ..< length h + length (g # gs)]
             = length h # [length h2 ..< length h2 + length gs]"
    by (simp add: len2 upt_rec)
  have a3: "out' = out @ [length h ..< length h + length (g # gs)]"
    using ih(3) upt by simp
  have "h' ! length h = (h ! self)\<lparr>glyphs := [g]\<rparr>"
    using ih(2) len2 new2 by simp
  moreover have "h2 ! self = h ! self" using old2 Cons.prems by simp
  ultimately have a4: "map (\<lambda>a. h' ! a) [length h ..< length h + length (g # gs)]
                 = map (\<lambda>g. (h ! self)\<lparr>glyphs := [g]\<rparr>) (g # gs)"
    using ih(4) upt by simp
  show ?case
    unfolding unfold r using a1 a2 a3 a4 by simp
qed

text \<open>
  C10. \<^verbatim>\<open>split\<close> changes no object that existed before the call, the receiver among them:
  its glyphs, font and four scalars are as before. It returns as many lines as the receiver
  has glyphs; each holds one glyph and the receiver's font and scalars; their glyphs, in
  order, are the glyphs of the receiver.
\<close>

theorem split_frame:
  assumes "self < length h" and "split self h = (out, h')"
  shows "h' ! self = h ! self
       \<and> (\<forall>a < length h. h' ! a = h ! a)
       \<and> length out = length (glyphs (h ! self))
       \<and> (\<forall>a \<in> set out. length (glyphs (h' ! a)) = 1
             \<and> font (h' ! a) = font (h ! self)
             \<and> font_size (h' ! a) = font_size (h ! self)
             \<and> character_spacing (h' ! a) = character_spacing (h ! self)
             \<and> word_spacing (h' ! a) = word_spacing (h ! self)
             \<and> horizontal_scaling (h' ! a) = horizontal_scaling (h ! self))
       \<and> concat (map (\<lambda>a. glyphs (h' ! a)) out) = glyphs (h ! self)"
proof -
  let ?gs = "glyphs (h ! self)"
  from split_loop_inv [OF assms(1), of ?gs "[]"] assms(2)
  have inv: "\<forall>a < length h. h' ! a = h ! a"
    "out = [length h ..< length h + length ?gs]"
    "map (\<lambda>a. h' ! a) out = map (\<lambda>g. (h ! self)\<lparr>glyphs := [g]\<rparr>) ?gs"
    by (simp_all add: split_def)
  have 1: "h' ! self = h ! self" using inv(1) assms(1) by simp
  have 3: "length out = length ?gs" using inv(2) by simp
  have 4: "\<forall>a \<in> set out. length (glyphs (h' ! a)) = 1
             \<and> font (h' ! a) = font (h ! self)
             \<and> font_size (h' ! a) = font_size (h ! self)
             \<and> character_spacing (h' ! a) = character_spacing (h ! self)
             \<and> word_spacing (h' ! a) = word_spacing (h ! self)
             \<and> horizontal_scaling (h' ! a) = horizontal_scaling (h ! self)"
  proof
    fix a assume "a \<in> set out"
    then have "h' ! a \<in> set (map (\<lambda>a. h' ! a) out)" by simp
    then obtain g where "h' ! a = (h ! self)\<lparr>glyphs := [g]\<rparr>"
      unfolding inv(3) by auto
    then show "length (glyphs (h' ! a)) = 1
             \<and> font (h' ! a) = font (h ! self)
             \<and> font_size (h' ! a) = font_size (h ! self)
             \<and> character_spacing (h' ! a) = character_spacing (h ! self)
             \<and> word_spacing (h' ! a) = word_spacing (h ! self)
             \<and> horizontal_scaling (h' ! a) = horizontal_scaling (h ! self)"
      by simp
  qed
  have "concat (map glyphs (map (\<lambda>g. (h ! self)\<lparr>glyphs := [g]\<rparr>) gs)) = gs" for gs
    by (induction gs) simp_all
  from this [of ?gs] have 5: "concat (map (\<lambda>a. glyphs (h' ! a)) out) = ?gs"
    unfolding inv(3) [symmetric] by (simp add: comp_def)
  from 1 inv(1) 3 4 5 show ?thesis by blast
qed

text \<open>
  A store holding one line of two glyphs at address 0: \<^verbatim>\<open>split\<close> allocates the addresses 1
  and 2 and leaves address 0 as it was.
\<close>

theorem split_frame_witness:
  "split 0 [sample_line]
     = ([1, 2],
        [sample_line,
         sample_line\<lparr>glyphs := [\<lparr>character_code = 72, unicode_str = [72], width = 500\<rparr>]\<rparr>,
         sample_line\<lparr>glyphs := [\<lparr>character_code = 105, unicode_str = [105], width = 500\<rparr>]\<rparr>])
   \<and> [sample_line,
       sample_line\<lparr>glyphs := [\<lparr>character_code = 72, unicode_str = [72], width = 500\<rparr>]\<rparr>,
       sample_line\<lparr>glyphs := [\<lparr>character_code = 105, unicode_str = [105], width = 500\<rparr>]\<rparr>] ! 0
     = [sample_line] ! 0
   \<and> concat (map (\<lambda>a. glyphs
         ([sample_line,
           sample_line\<lparr>glyphs := [\<lparr>character_code = 72, unicode_str = [72], width = 500\<rparr>]\<rparr>,
           sample_line\<lparr>glyphs := [\<lparr>character_code = 105, unicode_str = [105], width = 500\<rparr>]\<rparr>] ! a))
         [1, 2])
     = glyphs ([sample_line] ! 0)"
proof -
  have e: "split 0 [sample_line]
     = ([1, 2],
        [sample_line,
         sample_line\<lparr>glyphs := [\<lparr>character_code = 72, unicode_str = [72], width = 500\<rparr>]\<rparr>,
         sample_line\<lparr>glyphs := [\<lparr>character_code = 105, unicode_str = [105], width = 500\<rparr>]\<rparr>])"
    by (simp add: split_def new_GlyphLine_def GlyphLine_init_def GlyphLine_init_loop.simps
        sample_line_def Let_def)
  have l: "0 < length [sample_line]" by simp
  from split_frame [OF l e] e show ?thesis by blast
qed

section \<open>The text of a line\<close>

lemma no_space_not_endswith:
  "32 \<notin> set t \<Longrightarrow> t \<noteq> [] \<Longrightarrow> \<not> endswith (pre @ t) [32 :: nat]"
  by (cases t rule: rev_cases) (auto simp add: endswith_def)

lemma no_space_not_startswith: "32 \<notin> set t \<Longrightarrow> \<not> startswith t [32 :: nat]"
  by (cases t) (simp_all add: startswith_def)

text \<open>
  C4, as the code has it. For two events whose texts contain no space, the first not empty,
  \<^verbatim>\<open>get_text\<close> puts one inferred space between the two texts if
  \<^verbatim>\<open>round(space_width, 1) * Decimal(0.90) < delta\<close>, where the space width is the second
  event's and \<^verbatim>\<open>delta\<close> is the distance from the larger x-endpoint of the first event to
  the start of the second, and none otherwise. (The first event is tested the same way
  against its own smaller x-endpoint.) The threshold is 90 percent of the rounded width.
\<close>

theorem get_text_two_events:
  assumes "32 \<notin> set (TextRenderEvent_get_text e1)" and "TextRenderEvent_get_text e1 \<noteq> []"
    and "32 \<notin> set (TextRenderEvent_get_text e2)"
    and "dec_round1 (space_character_width e1) = Some s1"
    and "dec_round1 (space_character_width e2) = Some s2"
  shows "LineRenderEvent_get_text \<lparr>contained_events = [e1, e2]\<rparr>
         = Inr ((if dec_mul s1 Decimal_0_90
                      < dec_abs (dec_sub (min (x0 (baseline e1)) (x1 (baseline e1))) (x0 (baseline e1)))
                 then [32] else [])
                @ TextRenderEvent_get_text e1
                @ (if dec_mul s2 Decimal_0_90
                        < dec_abs (dec_sub (max (x0 (baseline e1)) (x1 (baseline e1))) (x0 (baseline e2)))
                   then [32] else [])
                @ TextRenderEvent_get_text e2)"
proof -
  let ?t1 = "TextRenderEvent_get_text e1" and ?t2 = "TextRenderEvent_get_text e2"
  have s1: "\<not> startswith ?t1 [32]" and s2: "\<not> startswith ?t2 [32]"
    using assms(1,3) by (simp_all add: no_space_not_startswith)
  have e0: "\<not> endswith ([] :: ustring) [32]"
    by (simp add: endswith_def)
  have e1: "\<not> endswith (pre @ ?t1) [32]" for pre
    using assms(1,2) by (rule no_space_not_endswith)
  show ?thesis
    using s1 s2 e0 e1 [of "[]"] e1 [of "[32]"] assms(4,5)
    by (simp add: LineRenderEvent_get_text_def Let_def)
qed

lemma r10: "dec_round1 10 = Some 10"
  by (simp add: dec_round1_def round_half_even_def Let_def)

lemma m90: "dec_mul 10 Decimal_0_90 = 9000000000000000222044604925 / 10 ^ 27"
  by (simp add: dec_eval Decimal_0_90_def)

lemma d0: "dec_abs (dec_sub 0 0) = 0"
  by (simp add: dec_eval)

lemma d95: "dec_abs (dec_sub 10 (39 / 2)) = 19 / 2"
  by (simp add: dec_eval)

lemma d120: "dec_abs (dec_sub 10 22) = 12"
  by (simp add: dec_eval)

text \<open>
  C4, as stated, fails at 95 percent: with space width 10, the first event from 0 to 10 and
  the second starting at 19.5, the gap is 9.5 and \<^verbatim>\<open>get_text\<close> gives \<^verbatim>\<open>"A B"\<close>, with an
  inferred space, since 10 * Decimal(0.90) = 9.000000000000000222044604925 < 9.5.
\<close>

theorem get_text_gap_95_percent:
  "x0 (baseline (sample_event [\<lparr>character_code = 66, unicode_str = [66], width = 500\<rparr>]
                   \<lparr>x0 = 39 / 2, y0 = 0, x1 = 59 / 2, y1 = 0\<rparr> 10))
     - max (x0 (baseline (sample_event [\<lparr>character_code = 65, unicode_str = [65], width = 500\<rparr>]
                   \<lparr>x0 = 0, y0 = 0, x1 = 10, y1 = 0\<rparr> 10)))
           (x1 (baseline (sample_event [\<lparr>character_code = 65, unicode_str = [65], width = 500\<rparr>]
                   \<lparr>x0 = 0, y0 = 0, x1 = 10, y1 = 0\<rparr> 10)))
     = 95 / 100
       * space_character_width
           (sample_event [\<lparr>character_code = 66, unicode_str = [66], width = 500\<rparr>]
              \<lparr>x0 = 39 / 2, y0 = 0, x1 = 59 / 2, y1 = 0\<rparr> 10)
   \<and> LineRenderEvent_get_text
       \<lparr>contained_events =
          [sample_event [\<lparr>character_code = 65, unicode_str = [65], width = 500\<rparr>]
             \<lparr>x0 = 0, y0 = 0, x1 = 10, y1 = 0\<rparr> 10,
           sample_event [\<lparr>character_code = 66, unicode_str = [66], width = 500\<rparr>]
             \<lparr>x0 = 39 / 2, y0 = 0, x1 = 59 / 2, y1 = 0\<rparr> 10]\<rparr>
     = Inr [65, 32, 66]"
  by (simp add: LineRenderEvent_get_text_def TextRenderEvent_get_text_def sample_event_def
      startswith_def endswith_def Let_def r10 m90 d0 d95)

text \<open>The same two events at a gap of 12, which is 120 percent: one inferred space.\<close>

theorem get_text_two_events_witness:
  "LineRenderEvent_get_text
       \<lparr>contained_events =
          [sample_event [\<lparr>character_code = 65, unicode_str = [65], width = 500\<rparr>]
             \<lparr>x0 = 0, y0 = 0, x1 = 10, y1 = 0\<rparr> 10,
           sample_event [\<lparr>character_code = 66, unicode_str = [66], width = 500\<rparr>]
             \<lparr>x0 = 22, y0 = 0, x1 = 32, y1 = 0\<rparr> 10]\<rparr>
     = Inr [65, 32, 66]"
  using get_text_two_events
          [of "sample_event [\<lparr>character_code = 65, unicode_str = [65], width = 500\<rparr>]
                 \<lparr>x0 = 0, y0 = 0, x1 = 10, y1 = 0\<rparr> 10"
              "sample_event [\<lparr>character_code = 66, unicode_str = [66], width = 500\<rparr>]
                 \<lparr>x0 = 22, y0 = 0, x1 = 32, y1 = 0\<rparr> 10" 10 10]
  by (simp add: TextRenderEvent_get_text_def sample_event_def r10 m90 d0 d120)

end
